theory Spec2Isabelle
  imports Main
begin

section \<open>Text: characters, lower-casing, whitespace\<close>

text \<open>
  A Python \<open>str\<close> is modelled as a \<open>string\<close>: the list of its code points, each below 256
  (the Latin-1 range, which contains ASCII). On that range \<open>str.lower\<close>, \<open>str.isspace\<close> and
  the classes \<open>\s\<close>, \<open>\d\<close> of the \<open>re\<close> module are the functions below.
\<close>

definition code :: "char \<Rightarrow> nat" where
  "code c = of_char c"

text \<open>\<open>str.lower\<close> on one code point: A-Z, and the Latin-1 capitals 0xC0-0xDE but 0xD7.\<close>

definition lower_char :: "char \<Rightarrow> char" where
  "lower_char c =
     (if (65 \<le> code c \<and> code c \<le> 90) \<or> (192 \<le> code c \<and> code c \<le> 222 \<and> code c \<noteq> 215)
      then char_of (code c + 32) else c)"

definition lower :: "string \<Rightarrow> string" where
  "lower s = map lower_char s"

text \<open>\<open>str.isspace\<close> on one code point; the same set is the class \<open>\s\<close>.\<close>

definition is_space :: "char \<Rightarrow> bool" where
  "is_space c =
     ((9 \<le> code c \<and> code c \<le> 13) \<or> (28 \<le> code c \<and> code c \<le> 32)
      \<or> code c = 133 \<or> code c = 160)"

definition is_digit :: "char \<Rightarrow> bool" where
  "is_digit c = (48 \<le> code c \<and> code c \<le> 57)"

text \<open>\<open>s.strip()\<close>: leading and trailing whitespace removed.\<close>

definition strip :: "string \<Rightarrow> string" where
  "strip s = rev (dropWhile is_space (rev (dropWhile is_space s)))"

text \<open>\<open>sub in s\<close> on strings: \<open>sub\<close> occurs in \<open>s\<close> as a contiguous block.\<close>

fun starts_with :: "string \<Rightarrow> string \<Rightarrow> bool" where
  "starts_with s [] = True"
| "starts_with [] (c # sub) = False"
| "starts_with (d # s) (c # sub) = (d = c \<and> starts_with s sub)"

fun contains :: "string \<Rightarrow> string \<Rightarrow> bool" where
  "contains [] sub = (sub = [])"
| "contains (d # s) sub = (starts_with (d # s) sub \<or> contains s sub)"

section \<open>The regular expressions the program uses\<close>

text \<open>
  The program calls \<open>re.search\<close> and \<open>re.findall\<close>, always with \<open>re.IGNORECASE\<close>, on a
  small fragment of the pattern language: literal characters, \<open>.\<close>, the classes \<open>\s\<close>,
  \<open>[^\s\n]\<close> and \<open>\d\<close>, the greedy quantifiers \<open>?\<close>, \<open>*\<close>, \<open>+\<close> on one of these, and an
  alternation of literal words. A pattern is a sequence of such items.
\<close>

datatype atom = Lit char | Dot | Space | NonSpace | Digit

datatype rx = One atom | Opt atom | Star atom | Plus atom | Alts "string list"

text \<open>One text character against one pattern atom, ignoring case.\<close>

fun atom_ok :: "atom \<Rightarrow> char \<Rightarrow> bool" where
  "atom_ok (Lit c) d = (lower_char d = lower_char c)"
| "atom_ok Dot d = (d \<noteq> CHR 0x0A)"
| "atom_ok Space d = is_space d"
| "atom_ok NonSpace d = (\<not> is_space d \<and> d \<noteq> CHR 0x0A)"
| "atom_ok Digit d = is_digit d"

text \<open>
  The matcher is the backtracking search of \<open>re\<close> written as a list of successes: the
  function returns what is left of the text after each way the item can match, the way
  tried first at the head. A greedy quantifier tries the longest repetition first, an
  alternation its words from left to right.
\<close>

fun star_rest :: "atom \<Rightarrow> string \<Rightarrow> string list" where
  "star_rest a [] = [[]]"
| "star_rest a (d # s) = (if atom_ok a d then star_rest a s @ [d # s] else [d # s])"

fun word_rest :: "string \<Rightarrow> string \<Rightarrow> string list" where
  "word_rest [] s = [s]"
| "word_rest (c # w) [] = []"
| "word_rest (c # w) (d # s) = (if atom_ok (Lit c) d then word_rest w s else [])"

fun rx_rest :: "rx \<Rightarrow> string \<Rightarrow> string list" where
  "rx_rest (One a) [] = []"
| "rx_rest (One a) (d # s) = (if atom_ok a d then [s] else [])"
| "rx_rest (Opt a) [] = [[]]"
| "rx_rest (Opt a) (d # s) = (if atom_ok a d then [s, d # s] else [d # s])"
| "rx_rest (Star a) s = star_rest a s"
| "rx_rest (Plus a) [] = []"
| "rx_rest (Plus a) (d # s) = (if atom_ok a d then star_rest a s else [])"
| "rx_rest (Alts ws) s = concat (map (\<lambda>w. word_rest w s) ws)"

fun seq_rest :: "rx list \<Rightarrow> string \<Rightarrow> string list" where
  "seq_rest [] s = [s]"
| "seq_rest (r # rs) s = concat (map (seq_rest rs) (rx_rest r s))"

text \<open>\<open>re.search(p, s, re.IGNORECASE)\<close> as a truth value: the pattern matches at some position.\<close>

fun search :: "rx list \<Rightarrow> string \<Rightarrow> bool" where
  "search p [] = (seq_rest p [] \<noteq> [])"
| "search p (d # s) = (seq_rest p (d # s) \<noteq> [] \<or> search p s)"

text \<open>
  The signatures of the catalog are written with literal characters, \<open>\.\<close> and \<open>.*\<close> only;
  \<open>compile\<close> reads such a pattern string.
\<close>

fun compile :: "string \<Rightarrow> rx list" where
  "compile [] = []"
| "compile [c] = [One (if c = CHR ''.'' then Dot else Lit c)]"
| "compile (c # d # s) =
     (if c = CHR 0x5C then One (Lit d) # compile s
      else if c = CHR ''.'' \<and> d = CHR ''*'' then Star Dot # compile s
      else One (if c = CHR ''.'' then Dot else Lit c) # compile (d # s))"

section \<open>Data model\<close>

text \<open>
  The dataclass \<open>DeploymentIssue\<close>; \<open>affected_files\<close> defaults to Python's \<open>None\<close>.
\<close>

record DeploymentIssue =
  type :: string
  severity :: string
  description :: string
  remediation :: string
  affected_files :: "string list option"

text \<open>One entry of \<open>failure_patterns\<close>: the inner dictionary with its three keys.\<close>

record category_config =
  patterns :: "string list"
  cat_severity :: string
  cat_remediation :: string

text \<open>
  The analyzer object. \<open>failure_patterns\<close> is a \<open>dict\<close>, which iterates in insertion order:
  an association list. The two header dictionaries only feed the HTTP calls and are left out.
\<close>

record analyzer =
  github_token :: string
  railway_token :: "string option"
  failure_patterns :: "(string \<times> category_config) list"

definition catalog :: "(string \<times> category_config) list" where
  "catalog =
   [(''missing_env_vars'',
      \<lparr>patterns =
         [''missing environment variable'',
          ''environment variable.*not found'',
          ''process'' @ CHR 0x5C # ''.env'' @ CHR 0x5C # ''..*is undefined'',
          ''OPENAI_API_KEY.*not found'',
          ''DATABASE_URL.*not found'',
          ''RAILWAY_TOKEN.*not found''],
       cat_severity = ''critical'',
       cat_remediation =
         ''Add missing environment variables in Railway dashboard under Variables tab''\<rparr>),
    (''port_binding'',
      \<lparr>patterns =
         [''port binding.*failed'',
          ''port.*not bound'',
          ''listen.*EADDRINUSE'',
          ''address already in use'',
          ''port.*required by railway''],
       cat_severity = ''critical'',
       cat_remediation =
         ''Ensure your app binds to the PORT environment variable (Railway sets this automatically)''\<rparr>),
    (''build_failure'',
      \<lparr>patterns =
         [''build failed'',
          ''npm.*error'',
          ''yarn.*error'',
          ''pnpm.*error'',
          ''typescript.*error'',
          ''compilation.*error'',
          ''module.*not found'',
          ''dependency.*not found''],
       cat_severity = ''critical'',
       cat_remediation =
         ''Check package.json dependencies, run '' @ CHR 0x27 # ''npm install'' @ CHR 0x27 #
         '' locally to verify, ensure all imports are correct''\<rparr>),
    (''database_connection'',
      \<lparr>patterns =
         [''database.*connection.*failed'',
          ''prisma.*error'',
          ''connection.*refused'',
          ''database.*not found'',
          ''authentication.*failed''],
       cat_severity = ''critical'',
       cat_remediation =
         ''Verify DATABASE_URL is correct, check database is running, ensure proper credentials''\<rparr>),
    (''memory_limit'',
      \<lparr>patterns =
         [''out of memory'',
          ''memory.*limit.*exceeded'',
          ''heap.*out.*of.*memory'',
          ''allocation.*failed''],
       cat_severity = ''warning'',
       cat_remediation =
         ''Optimize memory usage, consider upgrading Railway plan, add memory monitoring''\<rparr>),
    (''timeout'',
      \<lparr>patterns =
         [''timeout'',
          ''request.*timed.*out'',
          ''connection.*timeout'',
          ''operation.*timed.*out''],
       cat_severity = ''warning'',
       cat_remediation =
         ''Increase timeout settings, optimize slow operations, check external API responses''\<rparr>),
    (''file_not_found'',
      \<lparr>patterns =
         [''file.*not.*found'',
          ''cannot.*find.*module'',
          ''ENOENT'',
          ''no such file.*directory''],
       cat_severity = ''critical'',
       cat_remediation =
         ''Check file paths, ensure all required files are committed, verify build output includes all assets''\<rparr>),
    (''permission_denied'',
      \<lparr>patterns =
         [''permission.*denied'',
          ''EACCES'',
          ''access.*denied''],
       cat_severity = ''critical'',
       cat_remediation =
         ''Check file permissions, ensure Railway has proper access to required files''\<rparr>)]"

text \<open>\<open>__init__\<close>: the tokens are stored and the catalog is built.\<close>

definition init :: "string \<Rightarrow> string option \<Rightarrow> analyzer" where
  "init gh_token rw_token =
     \<lparr>github_token = gh_token, railway_token = rw_token, failure_patterns = catalog\<rparr>"

section \<open>File Reference Extractor\<close>

text \<open>
  \<open>re.findall\<close> on a pattern whose first group is a block of the sequence: the items before
  the group, the items of the group, the items after it. For each match \<open>findall\<close> gives the
  groups, and the program keeps the first (\<open>match[0]\<close>; with one group \<open>findall\<close> gives that
  group itself), so the model returns the text of group 1.
\<close>

type_synonym grouped = "rx list \<times> rx list \<times> rx list"

definition lits :: "string \<Rightarrow> rx list" where
  "lits w = map (\<lambda>c. One (Lit c)) w"

text \<open>The first match at the start of \<open>s\<close>: the text of group 1 and what is left of \<open>s\<close>.\<close>

fun match_at :: "grouped \<Rightarrow> string \<Rightarrow> (string \<times> string) option" where
  "match_at (pre, grp, post) s =
     (case concat (map (\<lambda>s1. concat (map (\<lambda>s2. map (\<lambda>s3. (take (length s1 - length s2) s1, s3))
                                                   (seq_rest post s2))
                                       (seq_rest grp s1)))
                       (seq_rest pre s)) of
        [] \<Rightarrow> None
      | m # _ \<Rightarrow> Some m)"

text \<open>
  The scan of \<open>findall\<close>, left to right over matches that do not overlap: \<open>skip\<close> counts the
  characters still covered by the last match. After an empty match the scan moves on by one
  character.
\<close>

fun findall_from :: "grouped \<Rightarrow> nat \<Rightarrow> string \<Rightarrow> string list" where
  "findall_from p skip [] =
     (if skip = 0 then (case match_at p [] of None \<Rightarrow> [] | Some (g, rest) \<Rightarrow> [g]) else [])"
| "findall_from p (Suc skip) (d # s) = findall_from p skip s"
| "findall_from p 0 (d # s) =
     (case match_at p (d # s) of
        None \<Rightarrow> findall_from p 0 s
      | Some (g, rest) \<Rightarrow> g # findall_from p (length (d # s) - length rest - 1) s)"

definition findall :: "grouped \<Rightarrow> string \<Rightarrow> string list" where
  "findall p s = findall_from p 0 s"

definition extensions :: "string list" where
  "extensions = [''js'', ''ts'', ''jsx'', ''tsx'', ''py'', ''java'', ''cpp'', ''c'', ''h'']"

text \<open>The group \<open>([^\s\n]+\.(js|ts|jsx|tsx|py|java|cpp|c|h))\<close>.\<close>

definition source_file :: "rx list" where
  "source_file = [Plus NonSpace, One (Lit CHR ''.''), Alts extensions]"

text \<open>
  The four patterns, in the order of the source:
  \<^verbatim>\<open>file:?\s*([^\s\n]+)\<close>,
  \<^verbatim>\<open>at\s+([^\s\n]+\.(js|ts|jsx|tsx|py|java|cpp|c|h))\<close>,
  \<^verbatim>\<open>in\s+([^\s\n]+\.(js|ts|jsx|tsx|py|java|cpp|c|h))\<close>,
  \<^verbatim>\<open>([^\s\n]+\.(js|ts|jsx|tsx|py|java|cpp|c|h)):\d+\<close>.
\<close>

definition file_patterns :: "grouped list" where
  "file_patterns =
     [(lits ''file'' @ [Opt (Lit CHR '':''), Star Space], [Plus NonSpace], []),
      (lits ''at'' @ [Plus Space], source_file, []),
      (lits ''in'' @ [Plus Space], source_file, []),
      ([], source_file, [One (Lit CHR '':''), Plus Digit])]"

text \<open>
  \<open>_extract_affected_files\<close>. The argument \<open>pattern\<close> is not used by the source either.
  \<open>list(set(files))\<close> lists each string once, in an order Python does not fix; \<open>remdups\<close>
  is one such listing, and nothing below depends on the order.
\<close>

definition extract_affected_files :: "string \<Rightarrow> string \<Rightarrow> string list" where
  "extract_affected_files logs pattern =
     remdups (concat (map (\<lambda>file_pattern. findall file_pattern logs) file_patterns))"

section \<open>Log Classifier\<close>

definition no_logs_issue :: DeploymentIssue where
  "no_logs_issue =
     \<lparr>type = ''no_logs'', severity = ''warning'',
      description = ''No deployment logs available'',
      remediation = ''Check Railway dashboard or ensure proper authentication'',
      affected_files = None\<rparr>"

definition unknown_failure_issue :: DeploymentIssue where
  "unknown_failure_issue =
     \<lparr>type = ''unknown_failure'', severity = ''warning'',
      description = ''No clear success or failure indicators found'',
      remediation = ''Review logs manually in Railway dashboard'',
      affected_files = None\<rparr>"

definition success_indicators :: "string list" where
  "success_indicators =
     [''deployment successful'', ''build completed'', ''server started'',
      ''listening on port'', ''application ready'']"

text \<open>\<open>issue_type.replace('_', ' ')\<close>\<close>

definition replace_underscores :: "string \<Rightarrow> string" where
  "replace_underscores s = map (\<lambda>c. if c = CHR ''_'' then CHR '' '' else c) s"

definition category_issue :: "string \<Rightarrow> string \<Rightarrow> category_config \<Rightarrow> string \<Rightarrow> DeploymentIssue" where
  "category_issue logs issue_type config pattern =
     \<lparr>type = issue_type, severity = cat_severity config,
      description = ''Detected '' @ replace_underscores issue_type @ '' issue'',
      remediation = cat_remediation config,
      affected_files = Some (extract_affected_files logs pattern)\<rparr>"

text \<open>
  The inner loop over one category's signatures: the first one found in the text appends
  an issue and leaves the loop (\<open>break\<close>). The result is what the loop appends.
\<close>

fun scan_patterns :: "string \<Rightarrow> string \<Rightarrow> string \<Rightarrow> category_config \<Rightarrow> string list
    \<Rightarrow> DeploymentIssue list" where
  "scan_patterns logs logs_lower issue_type config [] = []"
| "scan_patterns logs logs_lower issue_type config (pattern # rest) =
     (if search (compile pattern) logs_lower
      then [category_issue logs issue_type config pattern]
      else scan_patterns logs logs_lower issue_type config rest)"

text \<open>The outer loop over \<open>failure_patterns.items()\<close>, with the list \<open>issues\<close> built so far.\<close>

fun scan_catalog :: "string \<Rightarrow> string \<Rightarrow> (string \<times> category_config) list
    \<Rightarrow> DeploymentIssue list \<Rightarrow> DeploymentIssue list" where
  "scan_catalog logs logs_lower [] issues = issues"
| "scan_catalog logs logs_lower ((issue_type, config) # rest) issues =
     scan_catalog logs logs_lower rest
       (issues @ scan_patterns logs logs_lower issue_type config (patterns config))"

definition has_success :: "string \<Rightarrow> bool" where
  "has_success logs_lower = list_ex (\<lambda>indicator. contains logs_lower indicator) success_indicators"

definition analyze_logs :: "analyzer \<Rightarrow> string \<Rightarrow> string \<Rightarrow> DeploymentIssue list" where
  "analyze_logs self logs repo_name =
     (if logs = [] \<or> strip logs = [] then [no_logs_issue]
      else
        let logs_lower = lower logs;
            issues = scan_catalog logs logs_lower (failure_patterns self) []
        in if \<not> has_success logs_lower \<and> issues = []
           then issues @ [unknown_failure_issue]
           else issues)"

section \<open>Analysis of one repository\<close>

datatype DeploymentStatus = SUCCESS | FAILED | PENDING | UNKNOWN

record RepoAnalysis =
  repo_name :: string
  status :: DeploymentStatus
  issues :: "DeploymentIssue list"
  last_deployment :: "string option"
  logs_preview :: string

text \<open>
  A repository or project record is a \<open>dict\<close> read from JSON; the keys the program reads
  (\<open>name\<close>, \<open>id\<close>, \<open>updatedAt\<close>) hold strings. \<open>d[k]\<close> raises \<open>KeyError\<close> on a missing key,
  \<open>d.get(k)\<close> gives \<open>None\<close>.
\<close>

type_synonym pydict = "(string \<times> string) list"

datatype py_error = KeyError string

text \<open>\<open>str(e)\<close> of a \<open>KeyError\<close>: the key in single quotes.\<close>

fun str_of_error :: "py_error \<Rightarrow> string" where
  "str_of_error (KeyError k) = CHR 0x27 # k @ [CHR 0x27]"

text \<open>
  The matching loop of \<open>analyze_repo\<close>: the first project whose lower-cased name is the
  lower-cased repository name; \<open>project["name"]\<close> raises on a record without that key.
\<close>

fun find_project :: "pydict list \<Rightarrow> string \<Rightarrow> py_error + pydict option" where
  "find_project [] name = Inr None"
| "find_project (project # rest) name =
     (case map_of project ''name'' of
        None \<Rightarrow> Inl (KeyError ''name'')
      | Some project_name \<Rightarrow>
          if lower project_name = lower name then Inr (Some project)
          else find_project rest name)"

text \<open>
  The status rule of \<open>analyze_repo\<close> (the lines under \<open># Determine status\<close>), which the
  specification calls the aggregation.
\<close>

definition determine_status :: "DeploymentIssue list \<Rightarrow> DeploymentStatus" where
  "determine_status found =
     (if found = [] \<or> list_all (\<lambda>issue. severity issue = ''info'') found then SUCCESS
      else if list_ex (\<lambda>issue. severity issue = ''critical'') found then FAILED
      else PENDING)"

definition no_project_result :: "string \<Rightarrow> RepoAnalysis" where
  "no_project_result name =
     \<lparr>repo_name = name, status = UNKNOWN,
      issues = [\<lparr>type = ''no_railway_project'', severity = ''info'',
                 description = ''No matching Railway project found'',
                 remediation = ''Deploy this repository to Railway or check project naming'',
                 affected_files = None\<rparr>],
      last_deployment = None,
      logs_preview = ''No Railway project found''\<rparr>"

text \<open>
  \<open>analyze_repo\<close>. Fetching the logs is input/output: \<open>get_logs\<close> stands for
  \<open>get_railway_deployment_logs\<close>, from the project's name and \<open>id\<close> to the log text.
  \<open>not railway_project\<close> holds for \<open>None\<close> and for an empty \<open>dict\<close>.
\<close>

definition analyze_repo :: "analyzer \<Rightarrow> (string \<Rightarrow> string option \<Rightarrow> string) \<Rightarrow> pydict \<Rightarrow> pydict list
    \<Rightarrow> py_error + RepoAnalysis" where
  "analyze_repo self get_logs repo railway_projects =
     (case map_of repo ''name'' of
        None \<Rightarrow> Inl (KeyError ''name'')
      | Some name \<Rightarrow>
          (case find_project railway_projects name of
             Inl e \<Rightarrow> Inl e
           | Inr None \<Rightarrow> Inr (no_project_result name)
           | Inr (Some railway_project) \<Rightarrow>
               if railway_project = [] then Inr (no_project_result name)
               else
                 (case map_of railway_project ''name'' of
                    None \<Rightarrow> Inl (KeyError ''name'')
                  | Some project_name \<Rightarrow>
                      let logs = get_logs project_name (map_of railway_project ''id'');
                          found = analyze_logs self logs name
                      in Inr \<lparr>repo_name = name, status = determine_status found,
                              issues = found,
                              last_deployment = map_of railway_project ''updatedAt'',
                              logs_preview =
                                (if length logs > 500 then take 500 logs @ ''...'' else logs)\<rparr>)))"

section \<open>The batch\<close>

text \<open>The result \<open>run_analysis\<close> builds when \<open>analyze_repo\<close> raises \<open>e\<close>.\<close>

definition analysis_error_result :: "string \<Rightarrow> py_error \<Rightarrow> RepoAnalysis" where
  "analysis_error_result name e =
     \<lparr>repo_name = name, status = UNKNOWN,
      issues = [\<lparr>type = ''analysis_error'', severity = ''warning'',
                 description = ''Error during analysis: '' @ str_of_error e,
                 remediation = ''Check repository access and try again'',
                 affected_files = None\<rparr>],
      last_deployment = None,
      logs_preview = []\<rparr>"

text \<open>
  The loop of \<open>run_analysis\<close> over the repositories, with the list \<open>analyses\<close> built so far.
  The handler reads \<open>repo["name"]\<close> itself, so a repository without a name ends the run
  with the \<open>KeyError\<close>.
\<close>

fun analyze_all :: "analyzer \<Rightarrow> (string \<Rightarrow> string option \<Rightarrow> string) \<Rightarrow> pydict list \<Rightarrow> pydict list
    \<Rightarrow> RepoAnalysis list \<Rightarrow> py_error + RepoAnalysis list" where
  "analyze_all self get_logs railway_projects [] analyses = Inr analyses"
| "analyze_all self get_logs railway_projects (repo # repos) analyses =
     (case analyze_repo self get_logs repo railway_projects of
        Inr analysis \<Rightarrow> analyze_all self get_logs railway_projects repos (analyses @ [analysis])
      | Inl e \<Rightarrow>
          (case map_of repo ''name'' of
             None \<Rightarrow> Inl (KeyError ''name'')
           | Some name \<Rightarrow>
               analyze_all self get_logs railway_projects repos
                 (analyses @ [analysis_error_result name e])))"

text \<open>A log source for examples: every project has the same log text.\<close>

definition fixed_logs :: "string \<Rightarrow> string \<Rightarrow> string option \<Rightarrow> string" where
  "fixed_logs text project_name project_id = text"

section \<open>The classifier within one interpreter run\<close>


definition meta_chars :: string where
  "meta_chars = CHR 0x5C # ''.^$*+?{}[]|()''"

definition is_alnum :: "char \<Rightarrow> bool" where
  "is_alnum c =
     (c \<in> set ''0123456789abcdefghijklmnopqrstuvwxyzABCDEFGHIJKLMNOPQRSTUVWXYZ'')"

fun compile_checked :: "string \<Rightarrow> rx list option" where
  "compile_checked [] = Some []"
| "compile_checked [c] =
     (if c = CHR ''.'' then Some [One Dot]
      else if c \<in> set meta_chars then None
      else Some [One (Lit c)])"
| "compile_checked (c # d # s) =
     (if c = CHR 0x5C
      then (if is_alnum d then None else map_option ((#) (One (Lit d))) (compile_checked s))
      else if c = CHR ''.'' \<and> d = CHR ''*'' then map_option ((#) (Star Dot)) (compile_checked s)
      else if c = CHR ''.'' then map_option ((#) (One Dot)) (compile_checked (d # s))
      else if c \<in> set meta_chars then None
      else map_option ((#) (One (Lit c))) (compile_checked (d # s)))"

definition extract_affected_files_run :: "(string list \<Rightarrow> string list) \<Rightarrow> string \<Rightarrow> string
    \<Rightarrow> string list" where
  "extract_affected_files_run listing logs pattern =
     listing (concat (map (\<lambda>file_pattern. findall file_pattern logs) file_patterns))"

definition category_issue_run :: "(string list \<Rightarrow> string list) \<Rightarrow> string \<Rightarrow> string
    \<Rightarrow> category_config \<Rightarrow> string \<Rightarrow> DeploymentIssue" where
  "category_issue_run listing logs issue_type config pattern =
     \<lparr>type = issue_type, severity = cat_severity config,
      description = ''Detected '' @ replace_underscores issue_type @ '' issue'',
      remediation = cat_remediation config,
      affected_files = Some (extract_affected_files_run listing logs pattern)\<rparr>"

text \<open>The two loops again; \<open>None\<close> is the \<open>re.error\<close> that leaves \<open>analyze_logs\<close>.\<close>

fun scan_patterns_run :: "(string list \<Rightarrow> string list) \<Rightarrow> string \<Rightarrow> string \<Rightarrow> string
    \<Rightarrow> category_config \<Rightarrow> string list \<Rightarrow> DeploymentIssue list option" where
  "scan_patterns_run listing logs logs_lower issue_type config [] = Some []"
| "scan_patterns_run listing logs logs_lower issue_type config (pattern # rest) =
     (case compile_checked pattern of
        None \<Rightarrow> None
      | Some compiled \<Rightarrow>
          if search compiled logs_lower
          then Some [category_issue_run listing logs issue_type config pattern]
          else scan_patterns_run listing logs logs_lower issue_type config rest)"

fun scan_catalog_run :: "(string list \<Rightarrow> string list) \<Rightarrow> string \<Rightarrow> string
    \<Rightarrow> (string \<times> category_config) list \<Rightarrow> DeploymentIssue list \<Rightarrow> DeploymentIssue list option" where
  "scan_catalog_run listing logs logs_lower [] found = Some found"
| "scan_catalog_run listing logs logs_lower ((issue_type, config) # rest) found =
     (case scan_patterns_run listing logs logs_lower issue_type config (patterns config) of
        None \<Rightarrow> None
      | Some new \<Rightarrow> scan_catalog_run listing logs logs_lower rest (found @ new))"

definition analyze_logs_run :: "(string list \<Rightarrow> string list) \<Rightarrow> analyzer \<Rightarrow> string \<Rightarrow> string
    \<Rightarrow> DeploymentIssue list option" where
  "analyze_logs_run listing self logs name =
     (if logs = [] \<or> strip logs = [] then Some [no_logs_issue]
      else
        (case scan_catalog_run listing logs (lower logs) (failure_patterns self) [] of
           None \<Rightarrow> None
         | Some found \<Rightarrow>
             if \<not> has_success (lower logs) \<and> found = []
             then Some (found @ [unknown_failure_issue])
             else Some found))"

section \<open>Evaluation of the character functions\<close>

text \<open>
  The three character functions on the bits of a character (\<open>b0\<close> the lowest), proved
  from their definitions over all 256 characters; they make the classifier run on a
  concrete text without arithmetic.
\<close>

lemma lower_char_bits [code]:
  "lower_char (Char b0 b1 b2 b3 b4 b5 b6 b7) =
     (if b6 \<and> \<not> b5 \<and>
         (if b7 then \<not> (b0 \<and> b1 \<and> b2 \<and> b4)
          else (b0 \<or> b1 \<or> b2 \<or> b3 \<or> b4) \<and> \<not> (b4 \<and> b3 \<and> (b2 \<or> (b1 \<and> b0))))
      then Char b0 b1 b2 b3 b4 True b6 b7
      else Char b0 b1 b2 b3 b4 b5 b6 b7)"
  by (cases b0; cases b1; cases b2; cases b3; cases b4; cases b5; cases b6; cases b7;
      simp add: lower_char_def code_def char_of_def bit_Suc_0_iff)

lemma is_space_bits [code]:
  "is_space (Char b0 b1 b2 b3 b4 b5 b6 b7) =
     ((\<not> b7 \<and> \<not> b6 \<and> \<not> b5 \<and> \<not> b4 \<and> b3 \<and> ((\<not> b2 \<and> (b0 \<or> b1)) \<or> (b2 \<and> \<not> b1)))
      \<or> (\<not> b7 \<and> \<not> b6 \<and> \<not> b5 \<and> b4 \<and> b3 \<and> b2)
      \<or> (\<not> b6 \<and> b5 \<and> \<not> b4 \<and> \<not> b3 \<and> \<not> b2 \<and> \<not> b1 \<and> \<not> b0)
      \<or> (b7 \<and> \<not> b6 \<and> \<not> b5 \<and> \<not> b4 \<and> \<not> b3 \<and> b2 \<and> \<not> b1 \<and> b0))"
  by (cases b0; cases b1; cases b2; cases b3; cases b4; cases b5; cases b6; cases b7;
      simp add: is_space_def code_def)

lemma is_digit_bits [code]:
  "is_digit (Char b0 b1 b2 b3 b4 b5 b6 b7) =
     (\<not> b7 \<and> \<not> b6 \<and> b5 \<and> b4 \<and> (\<not> b3 \<or> (\<not> b2 \<and> \<not> b1)))"
  by (cases b0; cases b1; cases b2; cases b3; cases b4; cases b5; cases b6; cases b7;
      simp add: is_digit_def code_def)

section \<open>Strings\<close>

text \<open>\<open>strip\<close> leaves nothing exactly when every character is whitespace.\<close>

lemma strip_Nil_iff: "strip s = [] \<longleftrightarrow> (\<forall>c\<in>set s. is_space c)"
proof
  assume "strip s = []"
  then have "\<forall>c\<in>set (dropWhile is_space s). is_space c"
    by (simp add: strip_def dropWhile_eq_Nil_conv)
  then have "dropWhile is_space s = []"
    using hd_dropWhile [of is_space s] by (cases "dropWhile is_space s") auto
  then show "\<forall>c\<in>set s. is_space c"
    by (simp add: dropWhile_eq_Nil_conv)
next
  assume "\<forall>c\<in>set s. is_space c"
  then have "dropWhile is_space s = []"
    by (simp add: dropWhile_eq_Nil_conv)
  then show "strip s = []"
    unfolding strip_def by (simp del: dropWhile_eq_Nil_conv)
qed

lemma starts_with_iff: "starts_with s sub \<longleftrightarrow> (\<exists>v. s = sub @ v)"
  by (induction s sub rule: starts_with.induct) auto

text \<open>\<open>contains\<close> is the substring test.\<close>

lemma contains_iff: "contains s sub \<longleftrightarrow> (\<exists>u v. s = u @ sub @ v)"
proof (induction s)
  case Nil
  then show ?case by auto
next
  case (Cons d s)
  show ?case
  proof
    assume "contains (d # s) sub"
    then consider "starts_with (d # s) sub" | "contains s sub" by auto
    then show "\<exists>u v. d # s = u @ sub @ v"
    proof cases
      case 1
      then obtain v where "d # s = sub @ v" by (auto simp: starts_with_iff)
      then have "d # s = [] @ sub @ v" by simp
      then show ?thesis by blast
    next
      case 2
      then obtain u v where "s = u @ sub @ v" using Cons.IH by blast
      then have "d # s = (d # u) @ sub @ v" by simp
      then show ?thesis by blast
    qed
  next
    assume "\<exists>u v. d # s = u @ sub @ v"
    then obtain u v where uv: "d # s = u @ sub @ v" by blast
    show "contains (d # s) sub"
    proof (cases u)
      case Nil
      with uv have "starts_with (d # s) sub" by (auto simp: starts_with_iff)
      then show ?thesis by simp
    next
      case (Cons e u')
      with uv have "s = u' @ sub @ v" by simp
      then have "contains s sub" using Cons.IH by blast
      then show ?thesis by simp
    qed
  qed
qed

section \<open>The two loops of the classifier\<close>

text \<open>The inner loop emits the issue of the first signature found, if there is one.\<close>

lemma scan_patterns_find:
  "scan_patterns logs ll t cfg ps =
     (case find (\<lambda>p. search (compile p) ll) ps of
        None \<Rightarrow> []
      | Some p \<Rightarrow> [category_issue logs t cfg p])"
  by (induction ps) auto

lemma scan_catalog_concat:
  "scan_catalog logs ll cat acc =
     acc @ concat (map (\<lambda>(t, cfg). scan_patterns logs ll t cfg (patterns cfg)) cat)"
  by (induction cat arbitrary: acc) auto

lemma type_category_issue: "type (category_issue logs t cfg p) = t"
  by (simp add: category_issue_def)

text \<open>The categories of the issues found: those with a matching signature, in catalog order.\<close>

lemma scan_catalog_types:
  "map type (scan_catalog logs ll cat []) =
     map fst (filter (\<lambda>(t, cfg). list_ex (\<lambda>p. search (compile p) ll) (patterns cfg)) cat)"
proof (induction cat)
  case Nil
  then show ?case by simp
next
  case (Cons a cat)
  obtain t cfg where a: "a = (t, cfg)" by (cases a)
  show ?case
  proof (cases "find (\<lambda>p. search (compile p) ll) (patterns cfg)")
    case None
    then have "\<not> list_ex (\<lambda>p. search (compile p) ll) (patterns cfg)"
      by (simp add: find_None_iff list_ex_iff)
    with None Cons.IH a show ?thesis
      by (simp add: scan_catalog_concat scan_patterns_find)
  next
    case (Some p)
    then have "list_ex (\<lambda>p. search (compile p) ll) (patterns cfg)"
      by (auto simp: find_Some_iff list_ex_iff)
    with Some Cons.IH a show ?thesis
      by (simp add: scan_catalog_concat scan_patterns_find type_category_issue)
  qed
qed

lemma distinct_catalog: "distinct (map fst catalog)"
  by (simp add: catalog_def)

section \<open>Empty logs\<close>

text \<open>
  Claim C1. For a log text that is empty or has whitespace only, \<open>analyze_logs\<close> returns
  exactly one issue, of type \<open>no_logs\<close> and severity \<open>warning\<close>. The analyzer \<open>self\<close> is
  arbitrary: the result is the same whatever the catalog holds, none of its signatures
  has a say.
\<close>

theorem analyze_logs_blank:
  "\<forall>c\<in>set logs. is_space c \<Longrightarrow>
     analyze_logs self logs name =
       [\<lparr>type = ''no_logs'', severity = ''warning'',
         description = ''No deployment logs available'',
         remediation = ''Check Railway dashboard or ensure proper authentication'',
         affected_files = None\<rparr>]"
  by (simp add: analyze_logs_def strip_Nil_iff no_logs_issue_def)

text \<open>The same on a text of blanks and a newline, and on the empty text with an empty catalog.\<close>

theorem analyze_logs_blank_witness:
  "analyze_logs (init ''gh'' None) '' \<newline>  '' ''api-service'' =
       [\<lparr>type = ''no_logs'', severity = ''warning'',
         description = ''No deployment logs available'',
         remediation = ''Check Railway dashboard or ensure proper authentication'',
         affected_files = None\<rparr>]
   \<and> analyze_logs \<lparr>github_token = ''gh'', railway_token = None, failure_patterns = []\<rparr> [] ''api-service'' =
       [\<lparr>type = ''no_logs'', severity = ''warning'',
         description = ''No deployment logs available'',
         remediation = ''Check Railway dashboard or ensure proper authentication'',
         affected_files = None\<rparr>]"
proof -
  have ws: "\<forall>c\<in>set '' \<newline>  ''. is_space c"
    by (simp add: is_space_bits)
  have em: "\<forall>c\<in>set []. is_space c"
    by simp
  show ?thesis
    using analyze_logs_blank [OF ws] analyze_logs_blank [OF em] by simp
qed

section \<open>The status rule\<close>

text \<open>
  Claim C4. The status rule gives SUCCESS on the empty list and on a list of \<open>info\<close>
  issues only, FAILED on a list with a \<open>critical\<close> issue, and PENDING on every other list
  (no \<open>critical\<close> issue, some issue that is not \<open>info\<close>); so it gives SUCCESS on \<open>[]\<close> and
  \<open>[info]\<close>, PENDING on \<open>[warning]\<close> and FAILED on \<open>[critical, info]\<close>.
\<close>

theorem determine_status_cases:
  "((found = [] \<or> (\<forall>i\<in>set found. severity i = ''info'')) \<longrightarrow> determine_status found = SUCCESS)
   \<and> ((\<exists>i\<in>set found. severity i = ''critical'') \<longrightarrow> determine_status found = FAILED)
   \<and> ((\<exists>i\<in>set found. severity i \<noteq> ''info'') \<and> (\<forall>i\<in>set found. severity i \<noteq> ''critical'')
        \<longrightarrow> determine_status found = PENDING)
   \<and> determine_status [] = SUCCESS
   \<and> (severity a = ''info'' \<longrightarrow> determine_status [a] = SUCCESS)
   \<and> (severity a = ''warning'' \<longrightarrow> determine_status [a] = PENDING)
   \<and> (severity a = ''critical'' \<and> severity b = ''info'' \<longrightarrow> determine_status [a, b] = FAILED)"
  by (auto simp: determine_status_def list_all_iff list_ex_iff)

text \<open>The rule on issues the program itself builds.\<close>

theorem determine_status_cases_witness:
  "determine_status (issues (no_project_result ''api-service'')) = SUCCESS
   \<and> determine_status [unknown_failure_issue] = PENDING
   \<and> determine_status
        [category_issue [] ''timeout'' \<lparr>patterns = [], cat_severity = ''warning'', cat_remediation = []\<rparr> [],
         category_issue [] ''port_binding'' \<lparr>patterns = [], cat_severity = ''critical'', cat_remediation = []\<rparr> []]
       = FAILED"
  using determine_status_cases [of "issues (no_project_result ''api-service'')"]
    determine_status_cases [of "[unknown_failure_issue]"]
    determine_status_cases
      [of "[category_issue [] ''timeout'' \<lparr>patterns = [], cat_severity = ''warning'', cat_remediation = []\<rparr> [],
            category_issue [] ''port_binding'' \<lparr>patterns = [], cat_severity = ''critical'', cat_remediation = []\<rparr> []]"]
  by (simp add: no_project_result_def unknown_failure_issue_def category_issue_def)

section \<open>A log with two failures\<close>

text \<open>
  Claim C7. On the log text of the two lines \<open>Error: DATABASE_URL not found\<close> and
  \<open>Error: connection refused\<close> the classifier returns exactly two issues,
  \<open>missing_env_vars\<close> and \<open>database_connection\<close>, both \<open>critical\<close>, and the status rule gives
  FAILED on them.
\<close>

theorem analyze_logs_two_critical:
  "analyze_logs (init gh rw) ''Error: DATABASE_URL not found\<newline>Error: connection refused'' name =
     [\<lparr>type = ''missing_env_vars'', severity = ''critical'',
       description = ''Detected missing env vars issue'',
       remediation = ''Add missing environment variables in Railway dashboard under Variables tab'',
       affected_files = Some []\<rparr>,
      \<lparr>type = ''database_connection'', severity = ''critical'',
       description = ''Detected database connection issue'',
       remediation = ''Verify DATABASE_URL is correct, check database is running, ensure proper credentials'',
       affected_files = Some []\<rparr>]
   \<and> determine_status
         (analyze_logs (init gh rw) ''Error: DATABASE_URL not found\<newline>Error: connection refused'' name)
       = FAILED"
  by code_simp

section \<open>Logs without a known failure\<close>

text \<open>The success test, phrase by phrase.\<close>

lemma has_success_iff:
  "has_success ll \<longleftrightarrow>
     (\<exists>phrase\<in>set [''deployment successful'', ''build completed'', ''server started'',
                     ''listening on port'', ''application ready''].
        \<exists>u v. ll = u @ phrase @ v)"
  unfolding has_success_def success_indicators_def list_ex_iff contains_iff ..

lemma scan_catalog_no_match:
  assumes "\<forall>(t, cfg)\<in>set cat. \<forall>p\<in>set (patterns cfg). \<not> search (compile p) ll"
  shows "scan_catalog logs ll cat [] = []"
proof -
  have "filter (\<lambda>(t, cfg). list_ex (\<lambda>p. search (compile p) ll) (patterns cfg)) cat = []"
    using assms by (auto simp: filter_empty_conv list_ex_iff)
  then have "map type (scan_catalog logs ll cat []) = []"
    by (simp add: scan_catalog_types)
  then show ?thesis by simp
qed

text \<open>
  Claim C2. When the text is not blank and no signature of the catalog is found in its
  lower-cased form: if that form contains one of the five success phrases the classifier
  returns no issue, and otherwise it returns exactly one issue, of type \<open>unknown_failure\<close>
  and severity \<open>warning\<close>.
\<close>

theorem analyze_logs_no_signature:
  assumes "\<exists>c\<in>set logs. \<not> is_space c"
    and "\<forall>(t, cfg)\<in>set catalog. \<forall>p\<in>set (patterns cfg). \<not> search (compile p) (lower logs)"
  shows "analyze_logs (init gh rw) logs name =
           (if \<exists>phrase\<in>set [''deployment successful'', ''build completed'', ''server started'',
                              ''listening on port'', ''application ready''].
                 \<exists>u v. lower logs = u @ phrase @ v
            then []
            else [\<lparr>type = ''unknown_failure'', severity = ''warning'',
                   description = ''No clear success or failure indicators found'',
                   remediation = ''Review logs manually in Railway dashboard'',
                   affected_files = None\<rparr>])"
proof -
  from assms(1) have "logs \<noteq> []" and "strip logs \<noteq> []"
    by (auto simp: strip_Nil_iff)
  moreover have "scan_catalog logs (lower logs) (failure_patterns (init gh rw)) [] = []"
    using assms(2) by (simp add: init_def scan_catalog_no_match)
  ultimately have "analyze_logs (init gh rw) logs name =
      (if has_success (lower logs) then [] else [unknown_failure_issue])"
    by (simp add: analyze_logs_def)
  then show ?thesis
    unfolding has_success_iff unknown_failure_issue_def .
qed

text \<open>A log of a started server, and a log that says neither success nor failure.\<close>

theorem analyze_logs_no_signature_witness:
  "analyze_logs (init ''gh'' None) ''Server started\<newline>Listening on port 3000'' ''web'' = []
   \<and> analyze_logs (init ''gh'' None) ''Starting container'' ''web'' =
        [\<lparr>type = ''unknown_failure'', severity = ''warning'',
          description = ''No clear success or failure indicators found'',
          remediation = ''Review logs manually in Railway dashboard'',
          affected_files = None\<rparr>]"
proof -
  have nb1: "\<exists>c\<in>set ''Server started\<newline>Listening on port 3000''. \<not> is_space c"
    by code_simp
  have nm1: "\<forall>(t, cfg)\<in>set catalog. \<forall>p\<in>set (patterns cfg).
               \<not> search (compile p) (lower ''Server started\<newline>Listening on port 3000'')"
    by code_simp
  have s1: "has_success (lower ''Server started\<newline>Listening on port 3000'')"
    by code_simp
  have nb2: "\<exists>c\<in>set ''Starting container''. \<not> is_space c"
    by code_simp
  have nm2: "\<forall>(t, cfg)\<in>set catalog. \<forall>p\<in>set (patterns cfg).
               \<not> search (compile p) (lower ''Starting container'')"
    by code_simp
  have s2: "\<not> has_success (lower ''Starting container'')"
    by code_simp
  note r1 = analyze_logs_no_signature [OF nb1 nm1, of "''gh''" None "''web''", folded has_success_iff]
  note r2 = analyze_logs_no_signature [OF nb2 nm2, of "''gh''" None "''web''", folded has_success_iff]
  from r1 r2 s1 s2 show ?thesis
    by simp
qed

section \<open>One issue per category\<close>

text \<open>Every issue of the inner loop carries the category it was run for.\<close>

lemma scan_patterns_type:
  "i \<in> set (scan_patterns logs ll t cfg ps) \<Longrightarrow> type i = t"
  by (auto simp: scan_patterns_find type_category_issue split: option.splits)

lemma filter_type_scan:
  assumes "distinct (map fst cat)" and "(t, cfg) \<in> set cat"
  shows "filter (\<lambda>i. type i = t)
           (concat (map (\<lambda>(t, cfg). scan_patterns logs ll t cfg (patterns cfg)) cat)) =
         scan_patterns logs ll t cfg (patterns cfg)"
  using assms
proof (induction cat)
  case Nil
  then show ?case by simp
next
  case (Cons a cat)
  obtain t' cfg' where a: "a = (t', cfg')" by (cases a)
  show ?case
  proof (cases "(t, cfg) = a")
    case True
    then have here: "filter (\<lambda>i. type i = t) (scan_patterns logs ll t' cfg' (patterns cfg')) =
        scan_patterns logs ll t cfg (patterns cfg)"
      using a by (auto simp: filter_id_conv dest: scan_patterns_type)
    have "t \<notin> fst ` set cat"
      using Cons.prems(1) True by force
    have "type i \<noteq> t"
      if "i \<in> set (concat (map (\<lambda>(t, cfg). scan_patterns logs ll t cfg (patterns cfg)) cat))" for i
    proof -
      from that obtain t'' c'' where "(t'', c'') \<in> set cat"
        and "i \<in> set (scan_patterns logs ll t'' c'' (patterns c''))"
        by auto
      then have "type i = t''" and "t'' \<in> fst ` set cat"
        by (auto dest: scan_patterns_type intro: rev_image_eqI)
      with \<open>t \<notin> fst ` set cat\<close> show ?thesis by auto
    qed
    then have "filter (\<lambda>i. type i = t)
        (concat (map (\<lambda>(t, cfg). scan_patterns logs ll t cfg (patterns cfg)) cat)) = []"
      unfolding filter_empty_conv by blast
    with here a show ?thesis by simp
  next
    case False
    with Cons.prems have mem: "(t, cfg) \<in> set cat" and "t' \<noteq> t"
      using a by force+
    then have "filter (\<lambda>i. type i = t) (scan_patterns logs ll t' cfg' (patterns cfg')) = []"
      by (auto simp: filter_empty_conv dest: scan_patterns_type)
    moreover have "filter (\<lambda>i. type i = t)
        (concat (map (\<lambda>(t, cfg). scan_patterns logs ll t cfg (patterns cfg)) cat)) =
        scan_patterns logs ll t cfg (patterns cfg)"
      using Cons.IH Cons.prems(1) mem by simp
    ultimately show ?thesis using a by simp
  qed
qed

lemma scan_catalog_two:
  assumes "filter (\<lambda>(t, cfg). list_ex (\<lambda>p. search (compile p) ll) (patterns cfg)) cat =
             [(t1, c1), (t2, c2)]"
  shows "\<exists>p1 p2. find (\<lambda>p. search (compile p) ll) (patterns c1) = Some p1
           \<and> find (\<lambda>p. search (compile p) ll) (patterns c2) = Some p2
           \<and> scan_catalog logs ll cat [] =
               [category_issue logs t1 c1 p1, category_issue logs t2 c2 p2]"
proof -
  have gen: "scan_catalog logs ll cat [] =
      concat (map (\<lambda>(t, cfg). scan_patterns logs ll t cfg (patterns cfg))
        (filter (\<lambda>(t, cfg). list_ex (\<lambda>p. search (compile p) ll) (patterns cfg)) cat))"
  proof (induction cat)
    case Nil
    then show ?case by simp
  next
    case (Cons a cat)
    obtain t cfg where a: "a = (t, cfg)" by (cases a)
    have "\<not> list_ex (\<lambda>p. search (compile p) ll) (patterns cfg) \<Longrightarrow>
        scan_patterns logs ll t cfg (patterns cfg) = []"
      by (auto simp: scan_patterns_find list_ex_iff find_None_iff split: option.splits)
    with Cons.IH a show ?case
      by (auto simp: scan_catalog_concat)
  qed
  have "(t1, c1) \<in> set (filter (\<lambda>(t, cfg). list_ex (\<lambda>p. search (compile p) ll) (patterns cfg)) cat)"
    and "(t2, c2) \<in> set (filter (\<lambda>(t, cfg). list_ex (\<lambda>p. search (compile p) ll) (patterns cfg)) cat)"
    unfolding assms by simp_all
  then have m1: "list_ex (\<lambda>p. search (compile p) ll) (patterns c1)"
    and m2: "list_ex (\<lambda>p. search (compile p) ll) (patterns c2)"
    by simp_all
  from m1 obtain p1 where p1: "find (\<lambda>p. search (compile p) ll) (patterns c1) = Some p1"
    by (cases "find (\<lambda>p. search (compile p) ll) (patterns c1)")
      (auto simp: find_None_iff list_ex_iff)
  from m2 obtain p2 where p2: "find (\<lambda>p. search (compile p) ll) (patterns c2) = Some p2"
    by (cases "find (\<lambda>p. search (compile p) ll) (patterns c2)")
      (auto simp: find_None_iff list_ex_iff)
  have "scan_catalog logs ll cat [] = [category_issue logs t1 c1 p1, category_issue logs t2 c2 p2]"
    using gen assms p1 p2 by (simp add: scan_patterns_find)
  with p1 p2 show ?thesis by blast
qed

lemma unknown_failure_not_in_catalog: "''unknown_failure'' \<notin> fst ` set catalog"
  by (simp add: catalog_def)

text \<open>What \<open>analyze_logs\<close> returns on a text that is not blank, in terms of the catalog scan.\<close>

lemma analyze_logs_nonblank:
  assumes "\<exists>c\<in>set logs. \<not> is_space c"
  shows "analyze_logs (init gh rw) logs name =
           (if \<not> has_success (lower logs) \<and> scan_catalog logs (lower logs) catalog [] = []
            then [unknown_failure_issue]
            else scan_catalog logs (lower logs) catalog [])"
proof -
  from assms have "logs \<noteq> []" and "strip logs \<noteq> []"
    by (auto simp: strip_Nil_iff)
  then show ?thesis
    by (simp add: analyze_logs_def init_def Let_def)
qed

text \<open>
  Claim C3. The issues returned have pairwise different types, so there is at most one per
  category. On a text that is not blank, the issues of a category \<open>t\<close> of the catalog are:
  none when no signature of \<open>t\<close> is found, and otherwise the single issue built for the
  first signature of \<open>t\<close>, in listed order, that is found (\<open>find\<close>). When the categories
  with a signature found are exactly two, \<open>t1\<close> and \<open>t2\<close>, the result is exactly their two
  issues, each with the severity and the remediation of its category. In general the
  issues are those of the categories with a signature found, one each, in catalog order.
\<close>

theorem analyze_logs_one_issue_per_category:
  "distinct (map type (analyze_logs (init gh rw) logs name))
   \<and> ((\<exists>c\<in>set logs. \<not> is_space c) \<longrightarrow>
       (\<forall>(t, cfg)\<in>set catalog.
          filter (\<lambda>i. type i = t) (analyze_logs (init gh rw) logs name) =
            (case find (\<lambda>p. search (compile p) (lower logs)) (patterns cfg) of
               None \<Rightarrow> []
             | Some p \<Rightarrow> [category_issue logs t cfg p]))
       \<and> (\<forall>t1 c1 t2 c2.
            filter (\<lambda>(t, cfg). list_ex (\<lambda>p. search (compile p) (lower logs)) (patterns cfg)) catalog
              = [(t1, c1), (t2, c2)] \<longrightarrow>
            t1 \<noteq> t2
            \<and> (\<exists>p1 p2. find (\<lambda>p. search (compile p) (lower logs)) (patterns c1) = Some p1
                  \<and> find (\<lambda>p. search (compile p) (lower logs)) (patterns c2) = Some p2
                  \<and> analyze_logs (init gh rw) logs name =
                      [category_issue logs t1 c1 p1, category_issue logs t2 c2 p2])
            \<and> map (\<lambda>i. (type i, severity i, remediation i)) (analyze_logs (init gh rw) logs name) =
                [(t1, cat_severity c1, cat_remediation c1), (t2, cat_severity c2, cat_remediation c2)])
       \<and> (filter (\<lambda>(t, cfg). list_ex (\<lambda>p. search (compile p) (lower logs)) (patterns cfg)) catalog \<noteq> [] \<longrightarrow>
            map type (analyze_logs (init gh rw) logs name) =
              map fst (filter (\<lambda>(t, cfg). list_ex (\<lambda>p. search (compile p) (lower logs)) (patterns cfg))
                         catalog)))"
proof (intro conjI impI)
  let ?found = "scan_catalog logs (lower logs) catalog []"
  have dist: "distinct (map type ?found)"
    unfolding scan_catalog_types by (rule distinct_map_filter) (rule distinct_catalog)
  show "distinct (map type (analyze_logs (init gh rw) logs name))"
  proof (cases "\<exists>c\<in>set logs. \<not> is_space c")
    case True
    then show ?thesis
      using dist by (simp add: analyze_logs_nonblank)
  next
    case False
    then have "logs = [] \<or> strip logs = []"
      by (simp add: strip_Nil_iff)
    then show ?thesis
      by (auto simp: analyze_logs_def)
  qed
next
  assume nb: "\<exists>c\<in>set logs. \<not> is_space c"
  let ?found = "scan_catalog logs (lower logs) catalog []"
  show "\<forall>(t, cfg)\<in>set catalog.
          filter (\<lambda>i. type i = t) (analyze_logs (init gh rw) logs name) =
            (case find (\<lambda>p. search (compile p) (lower logs)) (patterns cfg) of
               None \<Rightarrow> []
             | Some p \<Rightarrow> [category_issue logs t cfg p])"
  proof (intro ballI, clarify)
    fix t cfg
    assume mem: "(t, cfg) \<in> set catalog"
    have one: "filter (\<lambda>i. type i = t) ?found =
        (case find (\<lambda>p. search (compile p) (lower logs)) (patterns cfg) of
           None \<Rightarrow> []
         | Some p \<Rightarrow> [category_issue logs t cfg p])"
      using filter_type_scan [OF distinct_catalog mem, of logs "lower logs"]
      by (simp add: scan_catalog_concat scan_patterns_find)
    from mem have "t \<in> fst ` set catalog"
      by (auto intro: rev_image_eqI)
    with unknown_failure_not_in_catalog have "t \<noteq> ''unknown_failure''"
      by blast
    then have unk: "filter (\<lambda>i. type i = t) [unknown_failure_issue] = []"
      by (simp add: unknown_failure_issue_def)
    show "filter (\<lambda>i. type i = t) (analyze_logs (init gh rw) logs name) =
        (case find (\<lambda>p. search (compile p) (lower logs)) (patterns cfg) of
           None \<Rightarrow> []
         | Some p \<Rightarrow> [category_issue logs t cfg p])"
    proof (cases "\<not> has_success (lower logs) \<and> ?found = []")
      case True
      then have "analyze_logs (init gh rw) logs name = [unknown_failure_issue]"
        by (simp add: analyze_logs_nonblank [OF nb])
      moreover from True one have
        "(case find (\<lambda>p. search (compile p) (lower logs)) (patterns cfg) of
           None \<Rightarrow> []
         | Some p \<Rightarrow> [category_issue logs t cfg p]) = []"
        by simp
      ultimately show ?thesis using unk by simp
    next
      case False
      then have "analyze_logs (init gh rw) logs name = ?found"
        by (auto simp: analyze_logs_nonblank [OF nb])
      with one show ?thesis by simp
    qed
  qed
next
  assume nb: "\<exists>c\<in>set logs. \<not> is_space c"
  let ?found = "scan_catalog logs (lower logs) catalog []"
  show "\<forall>t1 c1 t2 c2.
            filter (\<lambda>(t, cfg). list_ex (\<lambda>p. search (compile p) (lower logs)) (patterns cfg)) catalog
              = [(t1, c1), (t2, c2)] \<longrightarrow>
            t1 \<noteq> t2
            \<and> (\<exists>p1 p2. find (\<lambda>p. search (compile p) (lower logs)) (patterns c1) = Some p1
                  \<and> find (\<lambda>p. search (compile p) (lower logs)) (patterns c2) = Some p2
                  \<and> analyze_logs (init gh rw) logs name =
                      [category_issue logs t1 c1 p1, category_issue logs t2 c2 p2])
            \<and> map (\<lambda>i. (type i, severity i, remediation i)) (analyze_logs (init gh rw) logs name) =
                [(t1, cat_severity c1, cat_remediation c1), (t2, cat_severity c2, cat_remediation c2)]"
  proof (intro allI impI)
    fix t1 c1 t2 c2
    assume two: "filter (\<lambda>(t, cfg). list_ex (\<lambda>p. search (compile p) (lower logs)) (patterns cfg)) catalog
              = [(t1, c1), (t2, c2)]"
    have "distinct (map fst (filter (\<lambda>(t, cfg). list_ex (\<lambda>p. search (compile p) (lower logs)) (patterns cfg)) catalog))"
      by (rule distinct_map_filter) (rule distinct_catalog)
    then have ne: "t1 \<noteq> t2"
      unfolding two by simp
    from scan_catalog_two [OF two, of logs] obtain p1 p2
      where p1: "find (\<lambda>p. search (compile p) (lower logs)) (patterns c1) = Some p1"
        and p2: "find (\<lambda>p. search (compile p) (lower logs)) (patterns c2) = Some p2"
        and found: "?found = [category_issue logs t1 c1 p1, category_issue logs t2 c2 p2]"
      by blast
    from found have res: "analyze_logs (init gh rw) logs name =
        [category_issue logs t1 c1 p1, category_issue logs t2 c2 p2]"
      by (simp add: analyze_logs_nonblank [OF nb])
    then have "map (\<lambda>i. (type i, severity i, remediation i)) (analyze_logs (init gh rw) logs name) =
        [(t1, cat_severity c1, cat_remediation c1), (t2, cat_severity c2, cat_remediation c2)]"
      by (simp add: category_issue_def)
    with ne p1 p2 res show "t1 \<noteq> t2
            \<and> (\<exists>p1 p2. find (\<lambda>p. search (compile p) (lower logs)) (patterns c1) = Some p1
                  \<and> find (\<lambda>p. search (compile p) (lower logs)) (patterns c2) = Some p2
                  \<and> analyze_logs (init gh rw) logs name =
                      [category_issue logs t1 c1 p1, category_issue logs t2 c2 p2])
            \<and> map (\<lambda>i. (type i, severity i, remediation i)) (analyze_logs (init gh rw) logs name) =
                [(t1, cat_severity c1, cat_remediation c1), (t2, cat_severity c2, cat_remediation c2)]"
      by blast
  qed
next
  assume nb: "\<exists>c\<in>set logs. \<not> is_space c"
  assume some: "filter (\<lambda>(t, cfg). list_ex (\<lambda>p. search (compile p) (lower logs)) (patterns cfg)) catalog \<noteq> []"
  let ?found = "scan_catalog logs (lower logs) catalog []"
  have types: "map type ?found =
      map fst (filter (\<lambda>(t, cfg). list_ex (\<lambda>p. search (compile p) (lower logs)) (patterns cfg)) catalog)"
    by (rule scan_catalog_types)
  with some have "?found \<noteq> []"
    by auto
  then have "analyze_logs (init gh rw) logs name = ?found"
    by (simp add: analyze_logs_nonblank [OF nb])
  with types show "map type (analyze_logs (init gh rw) logs name) =
      map fst (filter (\<lambda>(t, cfg). list_ex (\<lambda>p. search (compile p) (lower logs)) (patterns cfg)) catalog)"
    by simp
qed

text \<open>A log with a port conflict and a timeout.\<close>

theorem analyze_logs_one_issue_per_category_witness:
  "map (\<lambda>i. (type i, severity i, remediation i))
     (analyze_logs (init ''gh'' None)
        ''Error: listen EADDRINUSE at src/index.ts:12\<newline>request timeout'' ''web'') =
   [(''port_binding'', ''critical'',
     ''Ensure your app binds to the PORT environment variable (Railway sets this automatically)''),
    (''timeout'', ''warning'',
     ''Increase timeout settings, optimize slow operations, check external API responses'')]"
proof -
  have nb: "\<exists>c\<in>set ''Error: listen EADDRINUSE at src/index.ts:12\<newline>request timeout''. \<not> is_space c"
    by code_simp
  have two: "filter (\<lambda>(t, cfg). list_ex (\<lambda>p. search (compile p)
        (lower ''Error: listen EADDRINUSE at src/index.ts:12\<newline>request timeout'')) (patterns cfg)) catalog
      = [(''port_binding'', snd (catalog ! 1)), (''timeout'', snd (catalog ! 5))]"
    by code_simp
  have sev: "cat_severity (snd (catalog ! 1)) = ''critical''"
    "cat_severity (snd (catalog ! 5)) = ''warning''"
    "cat_remediation (snd (catalog ! 1)) =
       ''Ensure your app binds to the PORT environment variable (Railway sets this automatically)''"
    "cat_remediation (snd (catalog ! 5)) =
       ''Increase timeout settings, optimize slow operations, check external API responses''"
    by code_simp+
  note analyze_logs_one_issue_per_category
    [of "''gh''" None "''Error: listen EADDRINUSE at src/index.ts:12\<newline>request timeout''" "''web''",
      THEN conjunct2, THEN mp, OF nb, THEN conjunct2, THEN conjunct1, THEN spec, THEN spec, THEN spec,
      THEN spec, THEN mp, OF two, THEN conjunct2, THEN conjunct2]
  then show ?thesis
    unfolding sev .
qed

text \<open>
  One line can be found by signatures of two categories: \<open>DATABASE_URL not found\<close> is a
  missing variable and, by the signature \<open>database.*not found\<close>, a database failure. With a
  timeout on the next line the text has three issues.
\<close>

lemma analyze_logs_three_categories:
  "map type (analyze_logs (init gh rw) ''DATABASE_URL not found\<newline>timeout'' name) =
     [''missing_env_vars'', ''database_connection'', ''timeout'']"
  by code_simp

section \<open>Matching a repository with a project\<close>

text \<open>A project that the loop selects has a name, which is the repository's up to case.\<close>

lemma find_project_Some:
  "find_project ps n = Inr (Some p) \<Longrightarrow>
     \<exists>pn. map_of p ''name'' = Some pn \<and> lower pn = lower n \<and> p \<in> set ps"
  by (induction ps) (auto split: option.splits if_splits)

lemma find_project_find:
  assumes "\<forall>project\<in>set ps. map_of project ''name'' \<noteq> None"
  shows "find_project ps n =
           Inr (find (\<lambda>project. map_option lower (map_of project ''name'') = Some (lower n)) ps)"
  using assms by (induction ps) (auto split: option.splits)

lemma analyze_repo_no_project:
  assumes "map_of repo ''name'' = Some n" and "find_project ps n = Inr None"
  shows "analyze_repo self get_logs repo ps = Inr (no_project_result n)"
  using assms by (simp add: analyze_repo_def)

lemma analyze_repo_project:
  assumes "map_of repo ''name'' = Some n" and "find_project ps n = Inr (Some p)"
  shows "\<exists>pn. map_of p ''name'' = Some pn \<and>
      analyze_repo self get_logs repo ps =
        Inr \<lparr>repo_name = n,
             status = determine_status (analyze_logs self (get_logs pn (map_of p ''id'')) n),
             issues = analyze_logs self (get_logs pn (map_of p ''id'')) n,
             last_deployment = map_of p ''updatedAt'',
             logs_preview =
               (if length (get_logs pn (map_of p ''id'')) > 500
                then take 500 (get_logs pn (map_of p ''id'')) @ ''...''
                else get_logs pn (map_of p ''id''))\<rparr>"
proof -
  from find_project_Some [OF assms(2)] obtain pn where pn: "map_of p ''name'' = Some pn"
    by blast
  then have "p \<noteq> []" by auto
  with assms pn show ?thesis
    by (simp add: analyze_repo_def Let_def)
qed

text \<open>
  Claim C6. For a repository with a name and a list of project records that all have a
  name, the matching loop selects the first project whose lower-cased name is the
  lower-cased repository name (\<open>find\<close>). When there is none, \<open>analyze_repo\<close> returns the
  result with status UNKNOWN and the single issue \<open>no_railway_project\<close> of severity
  \<open>info\<close>; that result is the same for every analyzer and every log source, so neither the
  logs nor the classifier have a say in it.
\<close>

theorem find_project_first_match:
  assumes "\<forall>project\<in>set railway_projects. map_of project ''name'' \<noteq> None"
    and "map_of repo ''name'' = Some name"
  shows "find_project railway_projects name =
           Inr (find (\<lambda>project. map_option lower (map_of project ''name'') = Some (lower name))
                  railway_projects)
     \<and> (find (\<lambda>project. map_option lower (map_of project ''name'') = Some (lower name))
           railway_projects = None \<longrightarrow>
         analyze_repo self get_logs repo railway_projects =
           Inr \<lparr>repo_name = name, status = UNKNOWN,
                issues = [\<lparr>type = ''no_railway_project'', severity = ''info'',
                           description = ''No matching Railway project found'',
                           remediation = ''Deploy this repository to Railway or check project naming'',
                           affected_files = None\<rparr>],
                last_deployment = None,
                logs_preview = ''No Railway project found''\<rparr>)"
proof -
  note f = find_project_find [OF assms(1), of name]
  show ?thesis
  proof (intro conjI impI)
    show "find_project railway_projects name =
           Inr (find (\<lambda>project. map_option lower (map_of project ''name'') = Some (lower name))
                  railway_projects)"
      by (rule f)
  next
    assume "find (\<lambda>project. map_option lower (map_of project ''name'') = Some (lower name))
           railway_projects = None"
    with f have "find_project railway_projects name = Inr None" by simp
    from analyze_repo_no_project [OF assms(2) this]
    show "analyze_repo self get_logs repo railway_projects =
           Inr \<lparr>repo_name = name, status = UNKNOWN,
                issues = [\<lparr>type = ''no_railway_project'', severity = ''info'',
                           description = ''No matching Railway project found'',
                           remediation = ''Deploy this repository to Railway or check project naming'',
                           affected_files = None\<rparr>],
                last_deployment = None,
                logs_preview = ''No Railway project found''\<rparr>"
      by (simp add: no_project_result_def)
  qed
qed

text \<open>
  The repository \<open>MyApp\<close> against projects \<open>other\<close>, \<open>myapp\<close> and \<open>MYAPP\<close>: the second is
  selected. The repository \<open>api-service\<close> against the project \<open>other\<close>: no match.
\<close>

theorem find_project_first_match_witness:
  "find_project
     [[(''name'', ''other'')], [(''name'', ''myapp''), (''id'', ''p1'')], [(''name'', ''MYAPP'')]]
     ''MyApp'' = Inr (Some [(''name'', ''myapp''), (''id'', ''p1'')])
   \<and> analyze_repo (init ''gh'' None) (fixed_logs ''build failed'')
        [(''name'', ''api-service'')] [[(''name'', ''other'')]] =
       Inr \<lparr>repo_name = ''api-service'', status = UNKNOWN,
            issues = [\<lparr>type = ''no_railway_project'', severity = ''info'',
                       description = ''No matching Railway project found'',
                       remediation = ''Deploy this repository to Railway or check project naming'',
                       affected_files = None\<rparr>],
            last_deployment = None,
            logs_preview = ''No Railway project found''\<rparr>"
proof -
  have n1: "\<forall>project\<in>set [[(''name'', ''other'')], [(''name'', ''myapp''), (''id'', ''p1'')],
      [(''name'', ''MYAPP'')]]. map_of project ''name'' \<noteq> None"
    by simp
  have r1: "map_of [(''name'', ''MyApp'')] ''name'' = Some ''MyApp''"
    by simp
  have f1: "find (\<lambda>project. map_option lower (map_of project ''name'') = Some (lower ''MyApp''))
      [[(''name'', ''other'')], [(''name'', ''myapp''), (''id'', ''p1'')], [(''name'', ''MYAPP'')]]
      = Some [(''name'', ''myapp''), (''id'', ''p1'')]"
    by code_simp
  have n2: "\<forall>project\<in>set [[(''name'', ''other'')]]. map_of project ''name'' \<noteq> None"
    by simp
  have r2: "map_of [(''name'', ''api-service'')] ''name'' = Some ''api-service''"
    by simp
  have f2: "find (\<lambda>project. map_option lower (map_of project ''name'') = Some (lower ''api-service''))
      [[(''name'', ''other'')]] = None"
    by code_simp
  from find_project_first_match [OF n1 r1, THEN conjunct1] f1
    find_project_first_match [OF n2 r2, THEN conjunct2, THEN mp, OF f2]
  show ?thesis
    by simp
qed

section \<open>The log excerpt\<close>

text \<open>
  Claim C8. For a repository matched with a project, the \<open>logs_preview\<close> of the result is
  the log text itself when it has at most 500 characters, and otherwise its first 500
  characters followed by \<open>...\<close>.
\<close>

theorem analyze_repo_logs_preview:
  assumes "map_of repo ''name'' = Some name"
    and "find_project railway_projects name = Inr (Some project)"
  shows "\<exists>res project_name.
           map_of project ''name'' = Some project_name
           \<and> analyze_repo self get_logs repo railway_projects = Inr res
           \<and> logs_preview res =
               (if length (get_logs project_name (map_of project ''id'')) \<le> 500
                then get_logs project_name (map_of project ''id'')
                else take 500 (get_logs project_name (map_of project ''id'')) @ ''...'')"
proof -
  from analyze_repo_project [OF assms, of self get_logs] obtain pn res
    where "map_of project ''name'' = Some pn"
      and "analyze_repo self get_logs repo railway_projects = Inr res"
      and "logs_preview res =
             (if length (get_logs pn (map_of project ''id'')) > 500
              then take 500 (get_logs pn (map_of project ''id'')) @ ''...''
              else get_logs pn (map_of project ''id''))"
    by force
  then show ?thesis
    by (intro exI [of _ res] exI [of _ pn]) auto
qed

text \<open>A log of 501 characters is cut, a log of 500 characters is kept.\<close>

theorem analyze_repo_logs_preview_witness:
  "(\<exists>res. analyze_repo (init ''gh'' None) (fixed_logs (replicate 501 (CHR ''x'')))
             [(''name'', ''MyApp'')] [[(''name'', ''myapp''), (''id'', ''p1'')]] = Inr res
          \<and> logs_preview res = replicate 500 (CHR ''x'') @ ''...'')
   \<and> (\<exists>res. analyze_repo (init ''gh'' None) (fixed_logs (replicate 500 (CHR ''x'')))
             [(''name'', ''MyApp'')] [[(''name'', ''myapp''), (''id'', ''p1'')]] = Inr res
          \<and> logs_preview res = replicate 500 (CHR ''x''))"
proof -
  have r: "map_of [(''name'', ''MyApp'')] ''name'' = Some ''MyApp''"
    by simp
  have f: "find_project [[(''name'', ''myapp''), (''id'', ''p1'')]] ''MyApp'' =
      Inr (Some [(''name'', ''myapp''), (''id'', ''p1'')])"
    by code_simp
  from analyze_repo_logs_preview [OF r f, of "init ''gh'' None" "fixed_logs (replicate 501 (CHR ''x''))"]
    analyze_repo_logs_preview [OF r f, of "init ''gh'' None" "fixed_logs (replicate 500 (CHR ''x''))"]
  show ?thesis
    by (simp add: fixed_logs_def)
qed

section \<open>Status and issues\<close>

text \<open>
  Claim C5 says that the status of every result is the status rule applied to its issues.
  It fails for the two results built with status UNKNOWN: for a repository without
  a project the rule gives SUCCESS on the single \<open>info\<close> issue, and for the result built
  after an error it gives PENDING on the single \<open>warning\<close> issue.
\<close>

theorem status_not_always_aggregate:
  "analyze_repo (init ''gh'' None) (fixed_logs []) [(''name'', ''api-service'')] [] =
     Inr (no_project_result ''api-service'')
   \<and> status (no_project_result ''api-service'') = UNKNOWN
   \<and> determine_status (issues (no_project_result ''api-service'')) = SUCCESS
   \<and> analyze_all (init ''gh'' None) (fixed_logs []) [[(''id'', ''p1'')]] [[(''name'', ''api-service'')]] [] =
     Inr [analysis_error_result ''api-service'' (KeyError ''name'')]
   \<and> status (analysis_error_result ''api-service'' (KeyError ''name'')) = UNKNOWN
   \<and> determine_status (issues (analysis_error_result ''api-service'' (KeyError ''name''))) = PENDING"
  by (simp add: analyze_repo_def no_project_result_def analysis_error_result_def determine_status_def)

text \<open>
  Claim C5 as amended. For a repository with a name: when a project is matched, the status
  of the result is the status rule applied to its issues; when none is matched, the status
  is UNKNOWN (the rule would give SUCCESS); and when the matching raises, the loop of
  \<open>run_analysis\<close> appends the error result, whose status is UNKNOWN (the rule would give
  PENDING).
\<close>

theorem analyze_repo_status:
  assumes "map_of repo ''name'' = Some name"
  shows "(\<forall>project. find_project railway_projects name = Inr (Some project) \<longrightarrow>
            (\<exists>res. analyze_repo self get_logs repo railway_projects = Inr res
                 \<and> status res = determine_status (issues res)))
       \<and> (find_project railway_projects name = Inr None \<longrightarrow>
            (\<exists>res. analyze_repo self get_logs repo railway_projects = Inr res
                 \<and> status res = UNKNOWN \<and> determine_status (issues res) = SUCCESS))
       \<and> (\<forall>e. find_project railway_projects name = Inl e \<longrightarrow>
            analyze_repo self get_logs repo railway_projects = Inl e
            \<and> analyze_all self get_logs railway_projects [repo] analyses =
                Inr (analyses @ [analysis_error_result name e])
            \<and> status (analysis_error_result name e) = UNKNOWN
            \<and> determine_status (issues (analysis_error_result name e)) = PENDING)"
proof (intro conjI allI impI)
  fix project
  assume "find_project railway_projects name = Inr (Some project)"
  from analyze_repo_project [OF assms this, of self get_logs]
  show "\<exists>res. analyze_repo self get_logs repo railway_projects = Inr res
          \<and> status res = determine_status (issues res)"
    by force
next
  assume "find_project railway_projects name = Inr None"
  from analyze_repo_no_project [OF assms this, of self get_logs]
  show "\<exists>res. analyze_repo self get_logs repo railway_projects = Inr res
          \<and> status res = UNKNOWN \<and> determine_status (issues res) = SUCCESS"
    by (simp add: no_project_result_def determine_status_def)
next
  fix e
  assume e: "find_project railway_projects name = Inl e"
  with assms show raised: "analyze_repo self get_logs repo railway_projects = Inl e"
    by (simp add: analyze_repo_def)
  with assms show "analyze_all self get_logs railway_projects [repo] analyses =
      Inr (analyses @ [analysis_error_result name e])"
    by simp
  show "status (analysis_error_result name e) = UNKNOWN"
    by (simp add: analysis_error_result_def)
  show "determine_status (issues (analysis_error_result name e)) = PENDING"
    by (simp add: analysis_error_result_def determine_status_def)
qed

text \<open>A matched repository, an unmatched one, and a project record without a name.\<close>

theorem analyze_repo_status_witness:
  "(\<exists>res. analyze_repo (init ''gh'' None) (fixed_logs ''Server started'')
             [(''name'', ''MyApp'')] [[(''name'', ''myapp''), (''id'', ''p1'')]] = Inr res
          \<and> status res = determine_status (issues res))
   \<and> (\<exists>res. analyze_repo (init ''gh'' None) (fixed_logs ''Server started'')
             [(''name'', ''api-service'')] [[(''name'', ''myapp''), (''id'', ''p1'')]] = Inr res
          \<and> status res = UNKNOWN \<and> determine_status (issues res) = SUCCESS)
   \<and> analyze_all (init ''gh'' None) (fixed_logs ''Server started'')
        [[(''id'', ''p1'')]] [[(''name'', ''api-service'')]] [] =
       Inr [analysis_error_result ''api-service'' (KeyError ''name'')]"
proof -
  have r1: "map_of [(''name'', ''MyApp'')] ''name'' = Some ''MyApp''"
    by simp
  have f1: "find_project [[(''name'', ''myapp''), (''id'', ''p1'')]] ''MyApp'' =
      Inr (Some [(''name'', ''myapp''), (''id'', ''p1'')])"
    by code_simp
  have r2: "map_of [(''name'', ''api-service'')] ''name'' = Some ''api-service''"
    by simp
  have f2: "find_project [[(''name'', ''myapp''), (''id'', ''p1'')]] ''api-service'' = Inr None"
    by code_simp
  have f3: "find_project [[(''id'', ''p1'')]] ''api-service'' = Inl (KeyError ''name'')"
    by simp
  from analyze_repo_status [OF r1, THEN conjunct1, THEN spec, THEN mp, OF f1]
    analyze_repo_status [OF r2, THEN conjunct2, THEN conjunct1, THEN mp, OF f2]
    analyze_repo_status [OF r2, THEN conjunct2, THEN conjunct2, THEN spec, THEN mp, OF f3,
      THEN conjunct2, THEN conjunct1, of _ _ "[]"]
  show ?thesis
    by simp
qed

section \<open>Affected files without duplicates\<close>

lemma count_list_distinct:
  "distinct xs \<Longrightarrow> count_list xs x = (if x \<in> set xs then 1 else 0)"
  by (induction xs) auto

text \<open>
  Claim C9. The list returned by \<open>_extract_affected_files\<close> has no duplicates, and its
  members are exactly the strings that one of the four patterns finds in the text: a
  string found several times, or by several patterns, occurs once in the result, and a
  string found by none does not occur.
\<close>

theorem extract_affected_files_no_duplicates:
  "distinct (extract_affected_files logs pattern)
   \<and> set (extract_affected_files logs pattern) =
       (\<Union>file_pattern\<in>set file_patterns. set (findall file_pattern logs))
   \<and> count_list (extract_affected_files logs pattern) f =
       (if \<exists>file_pattern\<in>set file_patterns. f \<in> set (findall file_pattern logs) then 1 else 0)"
proof -
  have d: "distinct (extract_affected_files logs pattern)"
    by (simp add: extract_affected_files_def)
  have s: "set (extract_affected_files logs pattern) =
      (\<Union>file_pattern\<in>set file_patterns. set (findall file_pattern logs))"
    by (simp add: extract_affected_files_def)
  have "count_list (extract_affected_files logs pattern) f =
      (if f \<in> set (extract_affected_files logs pattern) then 1 else 0)"
    using d by (rule count_list_distinct)
  also have "\<dots> =
      (if \<exists>file_pattern\<in>set file_patterns. f \<in> set (findall file_pattern logs) then 1 else 0)"
    unfolding s by simp
  finally show ?thesis
    using d s by blast
qed

text \<open>
  A text that names \<open>app.js\<close> after \<open>at\<close>, after \<open>in\<close> and before a line number: three finds,
  one member.
\<close>

theorem extract_affected_files_no_duplicates_witness:
  "concat (map (\<lambda>file_pattern. findall file_pattern ''Error at app.js in app.js\<newline>see app.js:10'')
      file_patterns) = [''app.js'', ''app.js'', ''app.js'']
   \<and> count_list (extract_affected_files ''Error at app.js in app.js\<newline>see app.js:10'' ''ENOENT'')
        ''app.js'' = 1
   \<and> count_list (extract_affected_files ''Error at app.js in app.js\<newline>see app.js:10'' ''ENOENT'')
        ''index.ts'' = 0"
proof -
  have all: "concat (map (\<lambda>file_pattern. findall file_pattern ''Error at app.js in app.js\<newline>see app.js:10'')
      file_patterns) = [''app.js'', ''app.js'', ''app.js'']"
    by code_simp
  have yes: "\<exists>file_pattern\<in>set file_patterns.
      ''app.js'' \<in> set (findall file_pattern ''Error at app.js in app.js\<newline>see app.js:10'')"
    by code_simp
  have no: "\<not> (\<exists>file_pattern\<in>set file_patterns.
      ''index.ts'' \<in> set (findall file_pattern ''Error at app.js in app.js\<newline>see app.js:10''))"
    by code_simp
  note c = extract_affected_files_no_duplicates
    [of "''Error at app.js in app.js\<newline>see app.js:10''" "''ENOENT''", THEN conjunct2, THEN conjunct2]
  from c [of "''app.js''"] yes c [of "''index.ts''"] no all show ?thesis
    by (simp only: if_True if_False simp_thms)
qed

section \<open>Two invocations on the same text\<close>

text \<open>
  Where \<open>compile_checked\<close> reads a pattern it reads it as \<open>compile\<close> does, and it reads
  every signature of the catalog: no \<open>re.search\<close> of the classifier raises.
\<close>

lemma compile_checked_compile: "compile_checked p = Some r \<Longrightarrow> compile p = r"
  by (induction p arbitrary: r rule: compile.induct) (auto split: if_splits)

lemma catalog_compiles:
  "\<forall>(t, cfg)\<in>set catalog. \<forall>p\<in>set (patterns cfg). compile_checked p \<noteq> None"
  by code_simp



lemma category_issue_run_eq:
  "category_issue_run listing logs t cfg p =
     (category_issue logs t cfg p)
       \<lparr>affected_files := Some (listing (concat (map (\<lambda>fp. findall fp logs) file_patterns)))\<rparr>"
  by (simp add: category_issue_run_def category_issue_def extract_affected_files_run_def)

lemma scan_patterns_run_eq:
  assumes "\<forall>p\<in>set ps. compile_checked p \<noteq> None"
  shows "scan_patterns_run listing logs ll t cfg ps =
           Some (map (\<lambda>i. i\<lparr>affected_files :=
                       Some (listing (concat (map (\<lambda>fp. findall fp logs) file_patterns)))\<rparr>)
                   (scan_patterns logs ll t cfg ps))"
  using assms
proof (induction ps)
  case Nil
  then show ?case by simp
next
  case (Cons p ps)
  then obtain r where r: "compile_checked p = Some r" by auto
  then have "compile p = r" by (rule compile_checked_compile)
  with r Cons show ?case
    by (simp add: category_issue_run_eq)
qed

lemma scan_catalog_run_eq:
  assumes "\<forall>(t, cfg)\<in>set cat. \<forall>p\<in>set (patterns cfg). compile_checked p \<noteq> None"
  shows "scan_catalog_run listing logs ll cat acc =
           Some (acc @ map (\<lambda>i. i\<lparr>affected_files :=
                       Some (listing (concat (map (\<lambda>fp. findall fp logs) file_patterns)))\<rparr>)
                   (scan_catalog logs ll cat []))"
  using assms
proof (induction cat arbitrary: acc)
  case Nil
  then show ?case by simp
next
  case (Cons a cat)
  obtain t cfg where a: "a = (t, cfg)" by (cases a)
  from Cons.prems a have here: "\<forall>p\<in>set (patterns cfg). compile_checked p \<noteq> None"
    and rest: "\<forall>(t, cfg)\<in>set cat. \<forall>p\<in>set (patterns cfg). compile_checked p \<noteq> None"
    by auto
  show ?case
    using a Cons.IH [OF rest] scan_patterns_run_eq [OF here, of listing logs ll t cfg]
    by (simp add: scan_catalog_concat)
qed

lemma scan_catalog_has_files:
  "i \<in> set (scan_catalog logs ll cat []) \<Longrightarrow> affected_files i \<noteq> None"
  by (auto simp: scan_catalog_concat scan_patterns_find category_issue_def split: option.splits)

text \<open>
  With the program's catalog the classifier of a run never fails, and its result is the
  result of \<open>analyze_logs\<close> with the files of every category issue listed by the run.
\<close>

lemma analyze_logs_run_eq:
  "analyze_logs_run listing (init gh rw) logs name =
     Some (map (\<lambda>i. if affected_files i = None then i
                     else i\<lparr>affected_files :=
                       Some (listing (concat (map (\<lambda>fp. findall fp logs) file_patterns)))\<rparr>)
             (analyze_logs (init gh rw) logs name))"
proof (cases "logs = [] \<or> strip logs = []")
  case True
  then show ?thesis
    by (auto simp: analyze_logs_run_def analyze_logs_def no_logs_issue_def)
next
  case False
  let ?found = "scan_catalog logs (lower logs) catalog []"
  let ?relist = "\<lambda>i. i\<lparr>affected_files :=
      Some (listing (concat (map (\<lambda>fp. findall fp logs) file_patterns)))\<rparr>"
  have run: "scan_catalog_run listing logs (lower logs) catalog [] = Some (map ?relist ?found)"
    using scan_catalog_run_eq [OF catalog_compiles, of listing logs "lower logs" "[]"] by simp
  have same: "map ?relist ?found =
      map (\<lambda>i. if affected_files i = None then i else ?relist i) ?found"
    by (rule map_cong) (auto dest: scan_catalog_has_files)
  show ?thesis
  proof (cases "\<not> has_success (lower logs) \<and> ?found = []")
    case True
    with False run show ?thesis
      by (simp add: analyze_logs_run_def analyze_logs_def init_def unknown_failure_issue_def)
  next
    case other: False
    with False run same show ?thesis
      by (auto simp: analyze_logs_run_def analyze_logs_def init_def)
  qed
qed

text \<open>The listing \<open>remdups\<close> gives the classifier as defined first.\<close>

lemma analyze_logs_run_remdups:
  "analyze_logs_run remdups (init gh rw) logs name = Some (analyze_logs (init gh rw) logs name)"
proof -
  have "map (\<lambda>i. if affected_files i = None then i
                  else i\<lparr>affected_files :=
                    Some (remdups (concat (map (\<lambda>fp. findall fp logs) file_patterns)))\<rparr>)
          (analyze_logs (init gh rw) logs name) =
        map (\<lambda>i. i) (analyze_logs (init gh rw) logs name)"
  proof (rule map_cong)
    fix i
    assume "i \<in> set (analyze_logs (init gh rw) logs name)"
    then have "i = no_logs_issue \<or> i = unknown_failure_issue
        \<or> i \<in> set (scan_catalog logs (lower logs) catalog [])"
      by (auto simp: analyze_logs_def init_def Let_def split: if_splits)
    then show "(if affected_files i = None then i
                else i\<lparr>affected_files :=
                  Some (remdups (concat (map (\<lambda>fp. findall fp logs) file_patterns)))\<rparr>) = i"
      by (auto simp: scan_catalog_concat scan_patterns_find category_issue_def
          extract_affected_files_def no_logs_issue_def unknown_failure_issue_def
          split: option.splits)
  qed simp
  then show ?thesis
    by (simp add: analyze_logs_run_eq)
qed




end
